theory Spec2Isabelle
  imports Main
begin

section \<open>The supervisory main loop of the HUDSON sensor node\<close>

text \<open>
  A shallow embedding of \<^verbatim>\<open>src/main/mainloop.py\<close>. The program talks to hardware and
  to collaborators that live in other repositories (modem driver, power module, line
  driver, network module, logger). Every such call is a step of the main thread; what
  the outside world answers at a step is read from an environment that is indexed by
  the number of the step. The main thread is a state-and-exception monad over the
  module globals; the interrupt handler \<^verbatim>\<open>nm3_callback\<close> runs between two steps of the
  main thread.
\<close>

subsection \<open>Exceptions, packets, clock readings\<close>

text \<open>
  Python exceptions: \<^verbatim>\<open>except Exception\<close> catches the instances of \<^verbatim>\<open>Exception\<close> only;
  \<^verbatim>\<open>KeyboardInterrupt\<close> and \<^verbatim>\<open>SystemExit\<close> derive from \<^verbatim>\<open>BaseException\<close> directly.
\<close>

datatype py_exception = Exception_instance string | BaseException_only string

fun is_Exception :: "py_exception \<Rightarrow> bool" where
  "is_Exception (Exception_instance _) = True"
| "is_Exception (BaseException_only _) = False"

datatype reset_cause =
  PWRON_RESET | HARD_RESET | WDT_RESET | DEEPSLEEP_RESET | SOFT_RESET | OTHER_RESET

text \<open>
  The fields of the modem driver's \<^verbatim>\<open>MessagePacket\<close> that the main loop touches. The
  payload is \<^verbatim>\<open>None\<close> or a sequence of bytes; \<^verbatim>\<open>timestamp\<close> holds the argument that was
  given to \<^verbatim>\<open>utime.localtime\<close>.
\<close>

record message_packet =
  packet_payload :: "string option"
  timestamp :: int
  timestamp_millis :: int
  timestamp_micros :: int

text \<open>What the three time sources return when the interrupt handler reads them.\<close>

record clock_reading =
  pyb_micros :: int
  pyb_millis :: int
  utime_time :: int

subsection \<open>Steps of the main thread\<close>

datatype event =
    WDT_init nat
  | Feed
  | Reset_cause_read reset_cause
  | Jot string
  | Jot_exception py_exception
  | Print string
  | Print_exception py_exception
  | LED2 bool
  | PowerModule_init
  | Disable_nm3
  | Enable_nm3
  | EN_3V3 bool
  | Pin_out string bool
  | Pin_in string
  | MAX3221E_init
  | Tx_force bool
  | ExtInt_Y3 bool
  | UART_init
  | Nm3_init
  | Sleep_ms nat
  | Get_address int
  | Get_battery_voltage string
  | Send_broadcast string
  | Network_init
  | Init_interfaces
  | Time int
  | Load_flag bool
  | Store_flag bool
  | Load_seconds int
  | Load_millis int
  | Load_micros int
  | Poll_receiver
  | Process_incoming_buffer "message_packet list"
  | Has_received_packet bool
  | Get_received_packet
  | Localtime int
  | Machine_reset
  | Open_file string string
  | File_close
  | File_exit
  | Gc_collect
  | Handle_packet message_packet
  | Lightsleep

text \<open>
  The environment. \<open>irqs E k\<close> are the runs of the interrupt handler that pre-empt the
  main thread just before its step \<open>k\<close>, each with the clock readings it takes;
  \<open>raises E k e\<close> is the exception that call \<open>e\<close> raises when it is made at step \<open>k\<close>;
  the other fields are the values the collaborators return. The battery voltage is a
  float in the source: the environment gives its rendering by \<^verbatim>\<open>{:0.2f}\<close>.
\<close>

record environment =
  irqs :: "nat \<Rightarrow> clock_reading list"
  raises :: "nat \<Rightarrow> event \<Rightarrow> py_exception option"
  time_at :: "nat \<Rightarrow> int"
  reset_cause_at :: "nat \<Rightarrow> reset_cause"
  address_at :: "nat \<Rightarrow> int"
  voltage_at :: "nat \<Rightarrow> string"
  parsed_at :: "nat \<Rightarrow> message_packet list"

text \<open>
  The state: the five module globals, the modem driver's queue of received packets, the
  number of the next step, the log of the interrupt handler's runs and the log of the
  main thread's steps.
\<close>

record world =
  nm3_callback_flag :: bool
  nm3_callback_seconds :: int
  nm3_callback_millis :: int
  nm3_callback_micros :: int
  env_variables :: "(string \<times> (string \<times> string option) list) list option"
  received_packets :: "message_packet list"
  step :: nat
  edges :: "clock_reading list"
  trace :: "event list"

datatype 'a result = Normal 'a | Raise py_exception | Reset_device | Out_of_fuel

type_synonym 'a prog = "environment \<Rightarrow> world \<Rightarrow> 'a result \<times> world"

subsection \<open>The interrupt handler\<close>

definition nm3_callback :: "clock_reading \<Rightarrow> world \<Rightarrow> world" where
  "nm3_callback c w =
     w\<lparr>nm3_callback_micros := pyb_micros c,
       nm3_callback_millis := pyb_millis c,
       nm3_callback_seconds := utime_time c,
       nm3_callback_flag := True,
       edges := edges w @ [c]\<rparr>"

definition service_irqs :: "environment \<Rightarrow> world \<Rightarrow> world" where
  "service_irqs E w = fold nm3_callback (irqs E (step w)) w"

subsection \<open>Sequencing, exceptions\<close>

definition preturn :: "'a \<Rightarrow> 'a prog" where
  "preturn x E w = (Normal x, w)"

definition skip :: "unit prog" where
  "skip = preturn ()"

definition pbind :: "'a prog \<Rightarrow> ('a \<Rightarrow> 'b prog) \<Rightarrow> 'b prog" where
  "pbind m f E w =
     (case m E w of
        (Normal x, w1) \<Rightarrow> f x E w1
      | (Raise x, w1) \<Rightarrow> (Raise x, w1)
      | (Reset_device, w1) \<Rightarrow> (Reset_device, w1)
      | (Out_of_fuel, w1) \<Rightarrow> (Out_of_fuel, w1))"

text \<open>A block of statements, run in order until one does not complete.\<close>

fun block :: "unit prog list \<Rightarrow> unit prog" where
  "block [] = skip"
| "block (p # ps) = pbind p (\<lambda>_. block ps)"

text \<open>\<^verbatim>\<open>try: body except Exception as e: handler\<close>.\<close>

definition try_except :: "'a prog \<Rightarrow> (py_exception \<Rightarrow> 'a prog) \<Rightarrow> 'a prog" where
  "try_except body handler E w =
     (case body E w of
        (Raise x, w1) \<Rightarrow> if is_Exception x then handler x E w1 else (Raise x, w1)
      | (r, w1) \<Rightarrow> (r, w1))"

text \<open>
  \<^verbatim>\<open>with open(..) as f: body\<close>: when the body raises, the file's \<^verbatim>\<open>__exit__\<close> still
  runs and the exception goes on.
\<close>

definition with_exit :: "unit prog \<Rightarrow> unit prog \<Rightarrow> unit prog \<Rightarrow> unit prog" where
  "with_exit enter body leave E w =
     (case enter E w of
        (Normal _, w1) \<Rightarrow>
          (case body E w1 of
             (Normal _, w2) \<Rightarrow> leave E w2
           | (Raise x, w2) \<Rightarrow>
               (case leave E w2 of (Normal _, w3) \<Rightarrow> (Raise x, w3) | (r, w3) \<Rightarrow> (r, w3))
           | (r, w2) \<Rightarrow> (r, w2))
      | (r, w1) \<Rightarrow> (r, w1))"

subsection \<open>Primitive steps\<close>

definition next_step :: "world \<Rightarrow> world" where
  "next_step w = w\<lparr>step := Suc (step w)\<rparr>"

definition emit :: "event \<Rightarrow> world \<Rightarrow> world" where
  "emit e w = w\<lparr>trace := trace w @ [e]\<rparr>"

text \<open>A call of a collaborator or of the runtime: it happens, or it raises.\<close>

definition call :: "event \<Rightarrow> unit prog" where
  "call e E w =
     (let w1 = service_irqs E w in
      case raises E (step w) e of
        Some x \<Rightarrow> (Raise x, next_step w1)
      | None \<Rightarrow> (Normal (), next_step (emit e w1)))"

text \<open>Reads and writes of the globals shared with the interrupt handler.\<close>

definition load_flag :: "bool prog" where
  "load_flag E w =
     (let w1 = service_irqs E w; b = nm3_callback_flag w1
      in (Normal b, next_step (emit (Load_flag b) w1)))"

definition store_flag :: "bool \<Rightarrow> unit prog" where
  "store_flag b E w =
     (let w1 = service_irqs E w
      in (Normal (), next_step (emit (Store_flag b) (w1\<lparr>nm3_callback_flag := b\<rparr>))))"

definition load_seconds :: "int prog" where
  "load_seconds E w =
     (let w1 = service_irqs E w; s = nm3_callback_seconds w1
      in (Normal s, next_step (emit (Load_seconds s) w1)))"

definition load_millis :: "int prog" where
  "load_millis E w =
     (let w1 = service_irqs E w; s = nm3_callback_millis w1
      in (Normal s, next_step (emit (Load_millis s) w1)))"

definition load_micros :: "int prog" where
  "load_micros E w =
     (let w1 = service_irqs E w; s = nm3_callback_micros w1
      in (Normal s, next_step (emit (Load_micros s) w1)))"

text \<open>\<^verbatim>\<open>machine.reset()\<close> does not return.\<close>

definition machine_reset :: "unit prog" where
  "machine_reset E w =
     (let w1 = service_irqs E w in (Reset_device, next_step (emit Machine_reset w1)))"

definition feed :: "unit prog" where
  "feed = call Feed"

definition jot :: "string \<Rightarrow> unit prog" where
  "jot s = call (Jot s)"

definition print :: "string \<Rightarrow> unit prog" where
  "print s = call (Print s)"

definition sleep_ms :: "nat \<Rightarrow> unit prog" where
  "sleep_ms d = call (Sleep_ms d)"

definition utime_time_now :: "int prog" where
  "utime_time_now E w =
     (let t = time_at E (step w) in pbind (call (Time t)) (\<lambda>_. preturn t) E w)"

definition machine_reset_cause :: "reset_cause prog" where
  "machine_reset_cause E w =
     (let c = reset_cause_at E (step w)
      in pbind (call (Reset_cause_read c)) (\<lambda>_. preturn c) E w)"

definition get_address :: "int prog" where
  "get_address E w =
     (let a = address_at E (step w) in pbind (call (Get_address a)) (\<lambda>_. preturn a) E w)"

definition get_battery_voltage :: "string prog" where
  "get_battery_voltage E w =
     (let v = voltage_at E (step w)
      in pbind (call (Get_battery_voltage v)) (\<lambda>_. preturn v) E w)"

definition send_broadcast_message :: "string \<Rightarrow> unit prog" where
  "send_broadcast_message s = call (Send_broadcast s)"

text \<open>
  The modem driver is not part of this repository. Its queue of received packets is
  modelled from the interface the main loop uses: \<^verbatim>\<open>process_incoming_buffer\<close> appends
  the packets it has completed, \<^verbatim>\<open>has_received_packet\<close> tests the queue,
  \<^verbatim>\<open>get_received_packet\<close> takes its head; taking from an empty queue is an error.
\<close>

definition process_incoming_buffer :: "unit prog" where
  "process_incoming_buffer E w =
     (let ps = parsed_at E (step w)
      in case call (Process_incoming_buffer ps) E w of
           (Normal _, w1) \<Rightarrow> (Normal (), w1\<lparr>received_packets := received_packets w1 @ ps\<rparr>)
         | (r, w1) \<Rightarrow> (r, w1))"

definition has_received_packet :: "bool prog" where
  "has_received_packet E w =
     (let b = (received_packets w \<noteq> [])
      in pbind (call (Has_received_packet b)) (\<lambda>_. preturn b) E w)"

definition get_received_packet :: "message_packet prog" where
  "get_received_packet E w =
     (case call Get_received_packet E w of
        (Normal _, w1) \<Rightarrow>
          (case received_packets w1 of
             [] \<Rightarrow> (Raise (Exception_instance ''IndexError''), w1)
           | p # ps \<Rightarrow> (Normal p, w1\<lparr>received_packets := ps\<rparr>))
      | (Raise x, w1) \<Rightarrow> (Raise x, w1)
      | (Reset_device, w1) \<Rightarrow> (Reset_device, w1)
      | (Out_of_fuel, w1) \<Rightarrow> (Out_of_fuel, w1))"

subsection \<open>String formatting\<close>

definition digit_char :: "nat \<Rightarrow> char" where
  "digit_char d = ''0123456789'' ! (d mod 10)"

fun decimal :: "nat \<Rightarrow> string" where
  "decimal n = (if n < 10 then [digit_char n] else decimal (n div 10) @ [digit_char n])"

definition zero_pad :: "nat \<Rightarrow> string \<Rightarrow> string" where
  "zero_pad k s = replicate (k - length s) CHR ''0'' @ s"

text \<open>\<^verbatim>\<open>"{:03d}".format(n)\<close>: the sign counts in the width.\<close>

definition format_03d :: "int \<Rightarrow> string" where
  "format_03d n =
     (if n < 0 then CHR ''-'' # zero_pad 2 (decimal (nat (- n)))
      else zero_pad 3 (decimal (nat n)))"

subsection \<open>The alive message\<close>

text \<open>Lines 75 to 89. The modem object is always present and truthy in this program.\<close>

definition send_usmart_alive_message :: "unit prog" where
  "send_usmart_alive_message =
     pbind get_address (\<lambda>nm3_address.
     pbind (sleep_ms 20) (\<lambda>_.
     pbind get_battery_voltage (\<lambda>nm3_voltage.
     pbind (sleep_ms 20) (\<lambda>_.
       send_broadcast_message
         (''UA'' @ format_03d nm3_address @ ''B'' @ nm3_voltage @ ''V''
            @ ''REV:2021-07-09T17:38:00'')))))"

subsection \<open>Startup, lines 110 to 210\<close>

text \<open>Lines 116 to 128: \<^verbatim>\<open>machine.reset_cause()\<close> is called again in every \<^verbatim>\<open>elif\<close>.\<close>

definition last_reset_cause :: "string prog" where
  "last_reset_cause =
     pbind machine_reset_cause (\<lambda>c1.
       if c1 = PWRON_RESET then preturn ''PWRON_RESET''
       else pbind machine_reset_cause (\<lambda>c2.
         if c2 = HARD_RESET then preturn ''HARD_RESET''
         else pbind machine_reset_cause (\<lambda>c3.
           if c3 = WDT_RESET then preturn ''WDT_RESET''
           else pbind machine_reset_cause (\<lambda>c4.
             if c4 = DEEPSLEEP_RESET then preturn ''DEEPSLEEP_RESET''
             else pbind machine_reset_cause (\<lambda>c5.
               if c5 = SOFT_RESET then preturn ''SOFT_RESET''
               else preturn ''UNDEFINED_RESET'')))))"

text \<open>Lines 111 to 132.\<close>

definition log_reset_cause :: "unit prog" where
  "log_reset_cause =
     pbind (call (WDT_init 30000)) (\<lambda>_.
     pbind last_reset_cause (\<lambda>cause.
       block [jot (''Reset cause: '' @ cause), print (''last_reset_cause='' @ cause)]))"

text \<open>Lines 136 to 161: modem off, rail and line driver on, interrupt, serial channel.\<close>

definition prepare_rails :: "unit prog" where
  "prepare_rails =
     block [feed,
            call (LED2 True),
            jot ''Powering off NM3'',
            call PowerModule_init,
            call Disable_nm3,
            call (EN_3V3 True),
            call (Pin_out ''Y5'' False),
            call MAX3221E_init,
            call (Tx_force True),
            call (ExtInt_Y3 False),
            call (ExtInt_Y3 True)]"

definition open_modem_channel :: "unit prog" where
  "open_modem_channel = block [call UART_init, call Nm3_init, sleep_ms 20]"

text \<open>Lines 164 to 173.\<close>

definition power_on_modem :: "unit prog" where
  "power_on_modem =
     block [feed,
            jot ''Powering on NM3'',
            sleep_ms 10000,
            call Enable_nm3,
            sleep_ms 10000,
            feed]"

text \<open>Lines 175 to 210.\<close>

definition announce :: "unit prog" where
  "announce =
     pbind (jot ''NM3 running'') (\<lambda>_.
     pbind get_address (\<lambda>nm3_address.
     pbind (sleep_ms 20) (\<lambda>_.
     pbind get_battery_voltage (\<lambda>nm3_voltage.
       block [sleep_ms 20,
              print (''NM3 Address '' @ format_03d nm3_address @ '' Voltage ''
                       @ nm3_voltage @ ''V.''),
              jot (''NM3 Address '' @ format_03d nm3_address @ '' Voltage ''
                     @ nm3_voltage @ ''V.''),
              send_usmart_alive_message,
              feed,
              sleep_ms 500,
              call Network_init,
              call Init_interfaces,
              sleep_ms 100,
              feed,
              pbind utime_time_now (\<lambda>uptime_start. skip)]))))"

definition startup :: "unit prog" where
  "startup = block [log_reset_cause, prepare_rails, open_modem_channel, power_on_modem, announce]"

subsection \<open>The command dispatcher, lines 253 to 318\<close>

text \<open>\<^verbatim>\<open>message_packet.packet_payload and bytes(message_packet.packet_payload) == marker\<close>.\<close>

definition payload_is :: "message_packet \<Rightarrow> string \<Rightarrow> bool" where
  "payload_is m marker =
     (case packet_payload m of None \<Rightarrow> False | Some p \<Rightarrow> p \<noteq> [] \<and> p = marker)"

text \<open>Lines 307 and 308.\<close>

definition is_network_packet :: "message_packet \<Rightarrow> bool" where
  "is_network_packet m =
     (case packet_payload m of
        None \<Rightarrow> False
      | Some p \<Rightarrow> p \<noteq> [] \<and> length p > 2 \<and> take 1 p = ''#'')"

text \<open>Lines 263 to 272: the flag file is opened for writing and closed.\<close>

definition write_ota_flag :: "unit prog" where
  "write_ota_flag =
     try_except
       (with_exit (call (Open_file ''.USOTA'' ''w'')) (call File_close) (call File_exit))
       (\<lambda>the_exception. block [call (Jot_exception the_exception),
                                call (Print_exception the_exception)])"

text \<open>Lines 293 to 302.\<close>

fun broadcast_modules :: "int \<Rightarrow> (string \<times> string option) list \<Rightarrow> unit prog" where
  "broadcast_modules nm3_address [] = skip"
| "broadcast_modules nm3_address ((mod_name, version) # rest) =
     block [send_broadcast_message
              (''UM'' @ format_03d nm3_address @ '':'' @ mod_name @ '':''
                 @ (case version of None \<Rightarrow> ''None''
                    | Some v \<Rightarrow> if v \<noteq> [] then v else ''None'')),
            sleep_ms 1000,
            feed,
            broadcast_modules nm3_address rest]"

text \<open>Lines 290 to 302: the guards on the environment variables.\<close>

definition list_modules :: "int \<Rightarrow> unit prog" where
  "list_modules nm3_address E w =
     (case env_variables w of
        None \<Rightarrow> skip E w
      | Some vars \<Rightarrow>
          if vars \<noteq> [] then
            (case map_of vars ''installedModules'' of
               None \<Rightarrow> skip E w
             | Some installed_modules \<Rightarrow>
                 if installed_modules \<noteq> []
                 then broadcast_modules nm3_address installed_modules E w
                 else skip E w)
          else skip E w)"

definition dispatch :: "message_packet \<Rightarrow> unit prog" where
  "dispatch m =
     block [if payload_is m ''USMRT''
            then block [jot ''Reset message received.'', machine_reset]
            else skip,
            if payload_is m ''USOTA''
            then block [jot ''OTA message received.'', write_ota_flag, machine_reset]
            else skip,
            if payload_is m ''USPNG''
            then block [jot ''PNG message received.'', send_usmart_alive_message]
            else skip,
            if payload_is m ''USMOD''
            then pbind (jot ''MOD message received.'') (\<lambda>_. pbind get_address list_modules)
            else skip,
            if is_network_packet m
            then block [call Gc_collect, call (Handle_packet m), call Gc_collect]
            else skip]"

subsection \<open>One iteration of the loop, lines 221 to 365\<close>

text \<open>Line 230, with the short circuit of \<^verbatim>\<open>or\<close>.\<close>

definition in_active_window :: "bool prog" where
  "in_active_window =
     pbind load_flag (\<lambda>flag.
       if flag then preturn True
       else pbind utime_time_now (\<lambda>now.
            pbind load_seconds (\<lambda>seconds. preturn (now < seconds + 30))))"

text \<open>Lines 248 to 250: the timestamps of the interrupt are copied into the packet.\<close>

definition stamp :: "message_packet \<Rightarrow> message_packet prog" where
  "stamp m =
     pbind load_seconds (\<lambda>seconds.
     pbind (call (Localtime seconds)) (\<lambda>_.
     pbind load_millis (\<lambda>millis.
     pbind load_micros (\<lambda>micros.
       preturn (m\<lparr>timestamp := seconds, timestamp_millis := millis,
                  timestamp_micros := micros\<rparr>)))))"

text \<open>Lines 243 to 318: the body of the loop over the received packets.\<close>

definition handle_received :: "unit prog" where
  "handle_received =
     pbind (print ''Has received nm3 message.'') (\<lambda>_.
     pbind (jot ''Has received nm3 message.'') (\<lambda>_.
     pbind get_received_packet (\<lambda>m.
     pbind (stamp m) dispatch)))"

text \<open>Line 241: the loop over the received packets, with fuel.\<close>

fun drain :: "nat \<Rightarrow> unit prog" where
  "drain 0 = (\<lambda>E w. (Out_of_fuel, w))"
| "drain (Suc n) =
     pbind has_received_packet (\<lambda>more.
       if more then pbind handle_received (\<lambda>_. drain n) else skip)"

text \<open>Lines 231 to 234: the flag is reported and cleared.\<close>

definition consume_flag :: "unit prog" where
  "consume_flag =
     pbind load_flag (\<lambda>flag.
     pbind (if flag then print ''Has received nm3 synch flag.'' else skip) (\<lambda>_.
       store_flag False))"

text \<open>Lines 231 to 318.\<close>

definition poll_and_dispatch :: "nat \<Rightarrow> unit prog" where
  "poll_and_dispatch n =
     block [consume_flag, call Poll_receiver, process_incoming_buffer, drain n]"

definition poll_branch :: "nat \<Rightarrow> unit prog" where
  "poll_branch n =
     pbind in_active_window (\<lambda>active. if active then poll_and_dispatch n else skip)"

text \<open>Line 323, with the short circuit of \<^verbatim>\<open>and\<close>.\<close>

definition too_long_since_synch :: "bool prog" where
  "too_long_since_synch =
     pbind load_flag (\<lambda>flag.
       if flag then preturn False
       else pbind utime_time_now (\<lambda>now.
            pbind load_seconds (\<lambda>seconds. preturn (now > seconds + 30))))"

text \<open>Lines 327 to 338: the sleep half of the power sequence.\<close>

definition power_down :: "unit prog" where
  "power_down =
     block [print ''Going to sleep.'',
            jot ''Going to sleep.'',
            call (Pin_in ''PULL_SCL''),
            call (Pin_in ''PULL_SDA''),
            call (Tx_force False),
            call (EN_3V3 False),
            call (LED2 False),
            sleep_ms 10]"

text \<open>Line 326: the second look at the flag.\<close>

definition double_check :: "unit prog" where
  "double_check = pbind load_flag (\<lambda>flag. if \<not> flag then power_down else skip)"

text \<open>Lines 340 to 346, with fuel.\<close>

fun sleep_loop :: "nat \<Rightarrow> unit prog" where
  "sleep_loop 0 = (\<lambda>E w. (Out_of_fuel, w))"
| "sleep_loop (Suc n) =
     pbind load_flag (\<lambda>flag.
       if \<not> flag then block [feed, call Lightsleep, sleep_loop n] else skip)"

text \<open>Lines 351 to 357: the wake half of the power sequence.\<close>

definition wake_up :: "unit prog" where
  "wake_up =
     block [feed,
            call (EN_3V3 True),
            call (Tx_force True),
            call (Pin_out ''PULL_SCL'' True),
            call (Pin_out ''PULL_SDA'' True)]"

definition sleep_branch :: "nat \<Rightarrow> unit prog" where
  "sleep_branch n =
     pbind too_long_since_synch (\<lambda>too_long.
       if too_long then block [double_check, sleep_loop n, wake_up] else skip)"

text \<open>Lines 222 to 359: the body of the \<^verbatim>\<open>try\<close>.\<close>

definition loop_body :: "nat \<Rightarrow> unit prog" where
  "loop_body n = block [feed, call (EN_3V3 True), poll_branch n, sleep_branch n]"

text \<open>Lines 361 to 365.\<close>

definition log_exception :: "py_exception \<Rightarrow> unit prog" where
  "log_exception the_exception =
     block [call (Print_exception the_exception), call (Jot_exception the_exception)]"

definition iteration :: "nat \<Rightarrow> unit prog" where
  "iteration n = try_except (loop_body n) log_exception"

text \<open>
  Line 220: \<^verbatim>\<open>while True\<close>. The first argument bounds the number of iterations, the
  second the number of rounds of each inner loop.
\<close>

fun mainloop :: "nat \<Rightarrow> nat \<Rightarrow> unit prog" where
  "mainloop 0 n = (\<lambda>E w. (Out_of_fuel, w))"
| "mainloop (Suc k) n = pbind (iteration n) (\<lambda>_. mainloop k n)"

definition run_mainloop :: "nat \<Rightarrow> nat \<Rightarrow> unit prog" where
  "run_mainloop k n = pbind startup (\<lambda>_. mainloop k n)"

text \<open>The module as it is loaded, lines 54 to 59, before \<^verbatim>\<open>set_environment_variables\<close>.\<close>

definition initial_world :: world where
  "initial_world =
     \<lparr>nm3_callback_flag = False, nm3_callback_seconds = 0, nm3_callback_millis = 0,
      nm3_callback_micros = 0, env_variables = None, received_packets = [], step = 0,
      edges = [], trace = []\<rparr>"

definition set_environment_variables ::
  "(string \<times> (string \<times> string option) list) list option \<Rightarrow> world \<Rightarrow> world" where
  "set_environment_variables env_variables_dict w = w\<lparr>env_variables := env_variables_dict\<rparr>"

section \<open>Relations and event classes used by the proofs\<close>

text \<open>
  \<open>keeps E R p\<close>: the states before and after a run of \<open>p\<close> are related by \<open>R\<close>, whatever
  the run's result. \<open>closed_under R ok\<close>: \<open>R\<close> is a preorder that holds across a run of
  the interrupt handler, across the count of a step, across the log of an event of the
  class \<open>ok\<close>, across the clearing of the flag and across a change of the modem's queue.
\<close>

definition keeps :: "environment \<Rightarrow> (world \<Rightarrow> world \<Rightarrow> bool) \<Rightarrow> 'a prog \<Rightarrow> bool" where
  "keeps E R p = (\<forall>w. R w (snd (p E w)))"

definition closed_under :: "(world \<Rightarrow> world \<Rightarrow> bool) \<Rightarrow> (event \<Rightarrow> bool) \<Rightarrow> bool" where
  "closed_under R ok =
     ((\<forall>w. R w w) \<and> (\<forall>a b c. R a b \<longrightarrow> R b c \<longrightarrow> R a c) \<and>
      (\<forall>w c. R w (nm3_callback c w)) \<and>
      (\<forall>w. R w (next_step w)) \<and>
      (\<forall>w e. ok e \<longrightarrow> R w (emit e w)) \<and>
      (\<forall>w. R w (w\<lparr>nm3_callback_flag := False\<rparr>)) \<and>
      (\<forall>w q. R w (w\<lparr>received_packets := q\<rparr>)))"

text \<open>A delay of one second or more.\<close>

definition long_delay :: "event \<Rightarrow> bool" where
  "long_delay e = (case e of Sleep_ms d \<Rightarrow> 1000 \<le> d | _ \<Rightarrow> False)"

text \<open>Every step but the report of the flag (line 232) and the long delays.\<close>

definition regular :: "event \<Rightarrow> bool" where
  "regular e = (e \<noteq> Print ''Has received nm3 synch flag.'' \<and> \<not> long_delay e)"

text \<open>The steps that lines 323 to 357 can take.\<close>

definition sleep_event :: "event \<Rightarrow> bool" where
  "sleep_event e =
     (case e of
        Load_flag _ \<Rightarrow> True | Time _ \<Rightarrow> True | Load_seconds _ \<Rightarrow> True
      | Feed \<Rightarrow> True | Lightsleep \<Rightarrow> True
      | Print s \<Rightarrow> s = ''Going to sleep.'' | Jot s \<Rightarrow> s = ''Going to sleep.''
      | Pin_in _ \<Rightarrow> True | Pin_out _ _ \<Rightarrow> True | Tx_force _ \<Rightarrow> True
      | EN_3V3 _ \<Rightarrow> True | LED2 _ \<Rightarrow> True | Sleep_ms d \<Rightarrow> d = 10
      | _ \<Rightarrow> False)"

text \<open>No call raises; no interrupt arrives.\<close>

definition no_faults :: "environment \<Rightarrow> bool" where
  "no_faults E = (\<forall>k e. raises E k e = None)"

definition quiet :: "environment \<Rightarrow> bool" where
  "quiet E = (\<forall>k. irqs E k = [])"

subsection \<open>Concrete environments\<close>

text \<open>
  Nothing raises and no interrupt arrives; the clock stands at \<open>t\<close>, the last reset was
  by the watchdog, the modem has address 7 and reports 3.70 V.
\<close>

definition still_env :: "int \<Rightarrow> environment" where
  "still_env t =
     \<lparr>irqs = (\<lambda>k. []), raises = (\<lambda>k e. None), time_at = (\<lambda>k. t),
      reset_cause_at = (\<lambda>k. WDT_RESET), address_at = (\<lambda>k. 7),
      voltage_at = (\<lambda>k. ''3.70''), parsed_at = (\<lambda>k. [])\<rparr>"

subsection \<open>The dispatcher as the specification words it\<close>

text \<open>
  The specification's table: the categories are tried in a fixed order and the first
  match wins. The source has five independent \<^verbatim>\<open>if\<close> statements instead.
\<close>

definition dispatch_first_match :: "message_packet \<Rightarrow> unit prog" where
  "dispatch_first_match m =
     (if payload_is m ''USMRT''
      then block [jot ''Reset message received.'', machine_reset]
      else if payload_is m ''USOTA''
      then block [jot ''OTA message received.'', write_ota_flag, machine_reset]
      else if payload_is m ''USPNG''
      then block [jot ''PNG message received.'', send_usmart_alive_message]
      else if payload_is m ''USMOD''
      then pbind (jot ''MOD message received.'') (\<lambda>_. pbind get_address list_modules)
      else if is_network_packet m
      then block [call Gc_collect, call (Handle_packet m), call Gc_collect]
      else skip)"

text \<open>The five tests of lines 253, 259, 277, 282 and 307.\<close>

definition categories :: "message_packet \<Rightarrow> bool list" where
  "categories m =
     [payload_is m ''USMRT'', payload_is m ''USOTA'', payload_is m ''USPNG'',
      payload_is m ''USMOD'', is_network_packet m]"

subsection \<open>Assumptions on the collaborators\<close>



text \<open>
  Lines 290 to 292: the environment variables are \<^verbatim>\<open>None\<close> or empty, or have no key
  \<^verbatim>\<open>installedModules\<close>, or an empty table under it.
\<close>

definition no_module_data ::
  "(string \<times> (string \<times> string option) list) list option \<Rightarrow> bool" where
  "no_module_data v =
     (case v of
        None \<Rightarrow> True
      | Some vars \<Rightarrow>
          vars = [] \<or> (case map_of vars ''installedModules'' of None \<Rightarrow> True | Some ms \<Rightarrow> ms = []))"

subsection \<open>Concrete packets\<close>

definition packet_of :: "string \<Rightarrow> message_packet" where
  "packet_of p =
     \<lparr>packet_payload = Some p, timestamp = 0, timestamp_millis = 0, timestamp_micros = 0\<rparr>"


text \<open>\<^verbatim>\<open>{"installedModules": {"alpha": "1.0", "beta": None}}\<close>.\<close>

definition two_modules :: "(string \<times> (string \<times> string option) list) list option" where
  "two_modules = Some [(''installedModules'', [(''alpha'', Some ''1.0''), (''beta'', None)])]"

subsection \<open>Logged steps and intermediate states\<close>

text \<open>
  \<open>emits ok w w'\<close>: from \<open>w\<close> to \<open>w'\<close> the main thread has logged steps of the class \<open>ok\<close> only.
  \<open>emitted p E w\<close>: the steps that a run of \<open>p\<close> from \<open>w\<close> logs.
\<close>

definition emits :: "(event \<Rightarrow> bool) \<Rightarrow> world \<Rightarrow> world \<Rightarrow> bool" where
  "emits ok w w' = (\<exists>es. trace w' = trace w @ es \<and> list_all ok es)"

definition emitted :: "'a prog \<Rightarrow> environment \<Rightarrow> world \<Rightarrow> event list" where
  "emitted p E w = drop (length (trace w)) (trace (snd (p E w)))"

text \<open>What follows the poll of the receiver in an iteration, and what follows the second look at the flag.\<close>

definition after_poll :: "nat \<Rightarrow> unit prog" where
  "after_poll n =
     pbind process_incoming_buffer (\<lambda>_. pbind (drain n) (\<lambda>_. sleep_branch n))"



text \<open>
  The state after a call that did not raise, the flag and the seconds as a read at this
  step finds them, the state after line 234.
\<close>

definition after_call :: "event \<Rightarrow> environment \<Rightarrow> world \<Rightarrow> world" where
  "after_call e E w = next_step (emit e (service_irqs E w))"

definition flag_seen :: "environment \<Rightarrow> world \<Rightarrow> bool" where
  "flag_seen E w = (nm3_callback_flag w \<or> irqs E (step w) \<noteq> [])"

definition seconds_seen :: "environment \<Rightarrow> world \<Rightarrow> int" where
  "seconds_seen E w = nm3_callback_seconds (service_irqs E w)"

definition after_store :: "environment \<Rightarrow> world \<Rightarrow> world" where
  "after_store E w =
     next_step (emit (Store_flag False) ((service_irqs E w)\<lparr>nm3_callback_flag := False\<rparr>))"

text \<open>The value of \<^verbatim>\<open>_nm3_callback_seconds\<close> that line 230 reads when the flag was read false.\<close>

definition seconds_at_test :: "environment \<Rightarrow> world \<Rightarrow> int" where
  "seconds_at_test E w =
     seconds_seen E
       (after_call (Time (time_at E (step w + 3))) E
         (after_call (Load_flag False) E
           (after_call (EN_3V3 True) E (after_call Feed E w))))"

subsection \<open>An environment with one interrupt\<close>


section \<open>Lemmas\<close>

subsection \<open>The interrupt handler between two steps\<close>

lemma fold_nm3_callback_trace [simp]: "trace (fold nm3_callback cs w) = trace w"
  by (induction cs arbitrary: w) (simp_all add: nm3_callback_def)

lemma fold_nm3_callback_step [simp]: "step (fold nm3_callback cs w) = step w"
  by (induction cs arbitrary: w) (simp_all add: nm3_callback_def)

lemma fold_nm3_callback_env [simp]: "env_variables (fold nm3_callback cs w) = env_variables w"
  by (induction cs arbitrary: w) (simp_all add: nm3_callback_def)

lemma fold_nm3_callback_queue [simp]:
  "received_packets (fold nm3_callback cs w) = received_packets w"
  by (induction cs arbitrary: w) (simp_all add: nm3_callback_def)

lemma fold_nm3_callback_edges [simp]: "edges (fold nm3_callback cs w) = edges w @ cs"
  by (induction cs arbitrary: w) (simp_all add: nm3_callback_def)

lemma fold_nm3_callback_flag [simp]:
  "nm3_callback_flag (fold nm3_callback cs w) = (nm3_callback_flag w \<or> cs \<noteq> [])"
  by (induction cs arbitrary: w) (auto simp add: nm3_callback_def)

lemma service_irqs_simps [simp]:
  "trace (service_irqs E w) = trace w"
  "step (service_irqs E w) = step w"
  "env_variables (service_irqs E w) = env_variables w"
  "received_packets (service_irqs E w) = received_packets w"
  "edges (service_irqs E w) = edges w @ irqs E (step w)"
  "nm3_callback_flag (service_irqs E w) = (nm3_callback_flag w \<or> irqs E (step w) \<noteq> [])"
  by (simp_all add: service_irqs_def)

lemma service_irqs_quiet: "irqs E (step w) = [] \<Longrightarrow> service_irqs E w = w"
  by (simp add: service_irqs_def)

subsection \<open>Relations between the state before and after a program\<close>

lemma closed_refl: "closed_under R ok \<Longrightarrow> R w w"
  by (simp add: closed_under_def)

lemma closed_trans: "closed_under R ok \<Longrightarrow> R a b \<Longrightarrow> R b c \<Longrightarrow> R a c"
  unfolding closed_under_def by blast

lemma closed_fold: "closed_under R ok \<Longrightarrow> R w (fold nm3_callback cs w)"
proof (induction cs arbitrary: w)
  case Nil
  then show ?case by (simp add: closed_refl)
next
  case (Cons c cs)
  have "R w (nm3_callback c w)" using Cons.prems by (simp add: closed_under_def)
  moreover have "R (nm3_callback c w) (fold nm3_callback cs (nm3_callback c w))"
    using Cons by blast
  ultimately show ?case using Cons.prems closed_trans by fastforce
qed

lemma closed_service: "closed_under R ok \<Longrightarrow> R w (service_irqs E w)"
  by (simp add: service_irqs_def closed_fold)

lemma closed_next: "closed_under R ok \<Longrightarrow> R w (next_step w)"
  by (simp add: closed_under_def)

lemma closed_emit: "closed_under R ok \<Longrightarrow> ok e \<Longrightarrow> R w (emit e w)"
  by (simp add: closed_under_def)

lemma keeps_preturn: "closed_under R ok \<Longrightarrow> keeps E R (preturn x)"
  by (simp add: keeps_def preturn_def closed_refl)

lemma keeps_skip: "closed_under R ok \<Longrightarrow> keeps E R skip"
  by (simp add: skip_def keeps_preturn)

lemma keeps_pbind:
  assumes c: "closed_under R ok" and m: "keeps E R m" and f: "\<And>x. keeps E R (f x)"
  shows "keeps E R (pbind m f)"
proof -
  have "R w (snd (pbind m f E w))" for w
  proof (cases "m E w")
    case (Pair r w1)
    have 1: "R w w1" using m Pair by (metis keeps_def snd_conv)
    show ?thesis
    proof (cases r)
      case (Normal x)
      have "R w1 (snd (f x E w1))" using f by (simp add: keeps_def)
      then show ?thesis using 1 Pair Normal closed_trans [OF c] by (simp add: pbind_def)
    qed (use 1 Pair in \<open>simp_all add: pbind_def\<close>)
  qed
  then show ?thesis by (simp add: keeps_def)
qed

lemma keeps_block_Nil: "closed_under R ok \<Longrightarrow> keeps E R (block [])"
  by (simp add: keeps_skip)

lemma keeps_block_Cons:
  "closed_under R ok \<Longrightarrow> keeps E R p \<Longrightarrow> keeps E R (block ps) \<Longrightarrow> keeps E R (block (p # ps))"
  by (simp add: keeps_pbind)

lemma keeps_if:
  "(c \<Longrightarrow> keeps E R p) \<Longrightarrow> (\<not> c \<Longrightarrow> keeps E R q) \<Longrightarrow> keeps E R (if c then p else q)"
  by simp

lemma keeps_try_except:
  assumes c: "closed_under R ok" and m: "keeps E R body" and f: "\<And>x. keeps E R (handler x)"
  shows "keeps E R (try_except body handler)"
proof -
  have "R w (snd (try_except body handler E w))" for w
  proof (cases "body E w")
    case (Pair r w1)
    have 1: "R w w1" using m Pair by (metis keeps_def snd_conv)
    show ?thesis
    proof (cases r)
      case (Raise x)
      have "R w1 (snd (handler x E w1))" using f by (simp add: keeps_def)
      then show ?thesis using 1 Pair Raise closed_trans [OF c] by (simp add: try_except_def)
    qed (use 1 Pair in \<open>simp_all add: try_except_def\<close>)
  qed
  then show ?thesis by (simp add: keeps_def)
qed

lemma closed_call_ok:
  assumes c: "closed_under R ok" and e: "ok e"
  shows "R w (next_step (emit e (service_irqs E w)))"
proof -
  have "R w (service_irqs E w)" by (rule closed_service [OF c])
  moreover have "R (service_irqs E w) (emit e (service_irqs E w))" by (rule closed_emit [OF c e])
  moreover have "R (emit e (service_irqs E w)) (next_step (emit e (service_irqs E w)))"
    by (rule closed_next [OF c])
  ultimately show ?thesis using closed_trans [OF c] by blast
qed

lemma closed_call_raise:
  assumes c: "closed_under R ok"
  shows "R w (next_step (service_irqs E w))"
  using closed_service [OF c] closed_next [OF c] closed_trans [OF c] by blast

lemma keeps_call: "closed_under R ok \<Longrightarrow> ok e \<Longrightarrow> keeps E R (call e)"
  unfolding keeps_def call_def Let_def
  by (auto split: option.split intro: closed_call_ok closed_call_raise)

lemma keeps_load_flag: "closed_under R ok \<Longrightarrow> (\<And>b. ok (Load_flag b)) \<Longrightarrow> keeps E R load_flag"
  unfolding keeps_def load_flag_def Let_def by (auto intro: closed_call_ok)

lemma keeps_load_seconds:
  "closed_under R ok \<Longrightarrow> (\<And>b. ok (Load_seconds b)) \<Longrightarrow> keeps E R load_seconds"
  unfolding keeps_def load_seconds_def Let_def by (auto intro: closed_call_ok)

lemma keeps_load_millis:
  "closed_under R ok \<Longrightarrow> (\<And>b. ok (Load_millis b)) \<Longrightarrow> keeps E R load_millis"
  unfolding keeps_def load_millis_def Let_def by (auto intro: closed_call_ok)

lemma keeps_load_micros:
  "closed_under R ok \<Longrightarrow> (\<And>b. ok (Load_micros b)) \<Longrightarrow> keeps E R load_micros"
  unfolding keeps_def load_micros_def Let_def by (auto intro: closed_call_ok)

lemma keeps_machine_reset: "closed_under R ok \<Longrightarrow> ok Machine_reset \<Longrightarrow> keeps E R machine_reset"
  unfolding keeps_def machine_reset_def Let_def by (auto intro: closed_call_ok)

lemma keeps_store_flag:
  assumes c: "closed_under R ok" and e: "ok (Store_flag False)"
  shows "keeps E R (store_flag False)"
proof -
  have "R w (snd (store_flag False E w))" for w
  proof -
    let ?w1 = "service_irqs E w"
    let ?w2 = "?w1\<lparr>nm3_callback_flag := False\<rparr>"
    have "R w ?w1" by (rule closed_service [OF c])
    moreover have "R ?w1 ?w2" using c by (simp add: closed_under_def)
    moreover have "R ?w2 (emit (Store_flag False) ?w2)" by (rule closed_emit [OF c e])
    moreover have "R (emit (Store_flag False) ?w2) (next_step (emit (Store_flag False) ?w2))"
      by (rule closed_next [OF c])
    ultimately have "R w (next_step (emit (Store_flag False) ?w2))"
      using closed_trans [OF c] by blast
    then show ?thesis by (simp add: store_flag_def Let_def)
  qed
  then show ?thesis by (simp add: keeps_def)
qed

lemma keeps_utime_time_now:
  "closed_under R ok \<Longrightarrow> (\<And>t. ok (Time t)) \<Longrightarrow> keeps E R utime_time_now"
  unfolding keeps_def utime_time_now_def Let_def pbind_def call_def preturn_def
  by (auto split: option.split intro: closed_call_ok closed_call_raise)

lemma keeps_machine_reset_cause:
  "closed_under R ok \<Longrightarrow> (\<And>t. ok (Reset_cause_read t)) \<Longrightarrow> keeps E R machine_reset_cause"
  unfolding keeps_def machine_reset_cause_def Let_def pbind_def call_def preturn_def
  by (auto split: option.split intro: closed_call_ok closed_call_raise)

lemma keeps_get_address:
  "closed_under R ok \<Longrightarrow> (\<And>t. ok (Get_address t)) \<Longrightarrow> keeps E R get_address"
  unfolding keeps_def get_address_def Let_def pbind_def call_def preturn_def
  by (auto split: option.split intro: closed_call_ok closed_call_raise)

lemma keeps_get_battery_voltage:
  "closed_under R ok \<Longrightarrow> (\<And>t. ok (Get_battery_voltage t)) \<Longrightarrow> keeps E R get_battery_voltage"
  unfolding keeps_def get_battery_voltage_def Let_def pbind_def call_def preturn_def
  by (auto split: option.split intro: closed_call_ok closed_call_raise)

lemma keeps_has_received_packet:
  "closed_under R ok \<Longrightarrow> (\<And>t. ok (Has_received_packet t)) \<Longrightarrow> keeps E R has_received_packet"
  unfolding keeps_def has_received_packet_def Let_def pbind_def call_def preturn_def
  by (auto split: option.split intro: closed_call_ok closed_call_raise)

lemma closed_queue: "closed_under R ok \<Longrightarrow> R w (w\<lparr>received_packets := q\<rparr>)"
  by (simp add: closed_under_def)

lemma keeps_then_queue:
  assumes c: "closed_under R ok" and "R w w1"
  shows "R w (w1\<lparr>received_packets := q\<rparr>)"
  using assms closed_queue [OF c] closed_trans [OF c] by blast

lemma keeps_process_incoming_buffer:
  assumes c: "closed_under R ok" and e: "\<And>ps. ok (Process_incoming_buffer ps)"
  shows "keeps E R process_incoming_buffer"
proof -
  have k: "keeps E R (call (Process_incoming_buffer ps))" for ps
    by (rule keeps_call [OF c e])
  have "R w (snd (process_incoming_buffer E w))" for w
  proof (cases "call (Process_incoming_buffer (parsed_at E (step w))) E w")
    case (Pair r w1)
    then have "R w w1" using k by (metis keeps_def snd_conv)
    then show ?thesis using Pair keeps_then_queue [OF c]
      by (cases r) (simp_all add: process_incoming_buffer_def Let_def)
  qed
  then show ?thesis by (simp add: keeps_def)
qed

lemma keeps_get_received_packet:
  assumes c: "closed_under R ok" and e: "ok Get_received_packet"
  shows "keeps E R get_received_packet"
proof -
  have k: "keeps E R (call Get_received_packet)"
    by (rule keeps_call [OF c e])
  have "R w (snd (get_received_packet E w))" for w
  proof (cases "call Get_received_packet E w")
    case (Pair r w1)
    then have "R w w1" using k by (metis keeps_def snd_conv)
    then show ?thesis using Pair keeps_then_queue [OF c]
      by (cases r) (simp_all add: get_received_packet_def split: list.split)
  qed
  then show ?thesis by (simp add: keeps_def)
qed

lemma keeps_with_exit:
  assumes c: "closed_under R ok" and a: "keeps E R enter" and b: "keeps E R body"
    and l: "keeps E R leave"
  shows "keeps E R (with_exit enter body leave)"
proof -
  have "R w (snd (with_exit enter body leave E w))" for w
  proof (cases "enter E w")
    case (Pair r w1)
    then have 1: "R w w1" using a by (metis keeps_def snd_conv)
    obtain r2 w2 where 2: "body E w1 = (r2, w2)" by (cases "body E w1")
    then have 3: "R w w2" using b 1 closed_trans [OF c] by (metis keeps_def snd_conv)
    obtain r3 w3 where 4: "leave E w2 = (r3, w3)" by (cases "leave E w2")
    then have 5: "R w w3" using l 3 closed_trans [OF c] by (metis keeps_def snd_conv)
    show ?thesis using Pair 1 2 3 4 5
      by (cases r; cases r2; cases r3) (simp_all add: with_exit_def)
  qed
  then show ?thesis by (simp add: keeps_def)
qed

lemma sleep_event_regular: "sleep_event e \<Longrightarrow> regular e"
  by (cases e) (simp_all add: sleep_event_def regular_def long_delay_def)

lemmas call_abbrevs = feed_def jot_def print_def sleep_ms_def send_broadcast_message_def

lemma keeps_sleep_loop:
  assumes c: "closed_under R ok" and "\<And>b. ok (Load_flag b)" "ok Feed" "ok Lightsleep"
  shows "keeps E R (sleep_loop n)"
proof (induction n)
  case 0
  show ?case by (simp add: keeps_def closed_refl [OF c])
next
  case (Suc n)
  show ?case unfolding sleep_loop.simps call_abbrevs
    by (intro keeps_pbind [OF c] keeps_load_flag [OF c] keeps_if keeps_block_Cons [OF c]
        keeps_block_Nil [OF c] keeps_call [OF c] keeps_skip [OF c] assms Suc)
qed

lemma keeps_wake_up:
  assumes c: "closed_under R ok" and "ok Feed" "ok (EN_3V3 True)" "ok (Tx_force True)"
    "ok (Pin_out ''PULL_SCL'' True)" "ok (Pin_out ''PULL_SDA'' True)"
  shows "keeps E R wake_up"
  unfolding wake_up_def call_abbrevs
  by (intro keeps_block_Cons [OF c] keeps_block_Nil [OF c] keeps_call [OF c] assms)

lemma keeps_too_long_since_synch:
  assumes c: "closed_under R ok" and "\<And>b. ok (Load_flag b)" "\<And>t. ok (Time t)"
    "\<And>s. ok (Load_seconds s)"
  shows "keeps E R too_long_since_synch"
  unfolding too_long_since_synch_def
  by (intro keeps_pbind [OF c] keeps_load_flag [OF c] keeps_if keeps_preturn [OF c]
      keeps_utime_time_now [OF c] keeps_load_seconds [OF c] assms)

lemma keeps_in_active_window:
  assumes c: "closed_under R ok" and "\<And>b. ok (Load_flag b)" "\<And>t. ok (Time t)"
    "\<And>s. ok (Load_seconds s)"
  shows "keeps E R in_active_window"
  unfolding in_active_window_def
  by (intro keeps_pbind [OF c] keeps_load_flag [OF c] keeps_if keeps_preturn [OF c]
      keeps_utime_time_now [OF c] keeps_load_seconds [OF c] assms)

lemma keeps_power_down:
  assumes c: "closed_under R ok" and s: "\<And>e. sleep_event e \<Longrightarrow> ok e"
  shows "keeps E R power_down"
  unfolding power_down_def call_abbrevs
  by (intro keeps_block_Cons [OF c] keeps_block_Nil [OF c] keeps_call [OF c] s)
     (simp_all add: sleep_event_def)

lemma keeps_sleep_branch:
  assumes c: "closed_under R ok" and s: "\<And>e. sleep_event e \<Longrightarrow> ok e"
  shows "keeps E R (sleep_branch n)"
  unfolding sleep_branch_def double_check_def
  by (intro keeps_pbind [OF c] keeps_if keeps_block_Cons [OF c] keeps_block_Nil [OF c]
      keeps_skip [OF c] keeps_load_flag [OF c] keeps_power_down [OF c]
      keeps_too_long_since_synch [OF c] keeps_sleep_loop [OF c] keeps_wake_up [OF c] s)
     (simp_all add: sleep_event_def)

lemma keeps_log_exception:
  assumes c: "closed_under R ok" and "ok (Print_exception x)" "ok (Jot_exception x)"
  shows "keeps E R (log_exception x)"
  unfolding log_exception_def
  by (intro keeps_block_Cons [OF c] keeps_block_Nil [OF c] keeps_call [OF c] assms)

lemma keeps_consume_flag:
  assumes c: "closed_under R ok" and "\<And>b. ok (Load_flag b)"
    "ok (Print ''Has received nm3 synch flag.'')" "ok (Store_flag False)"
  shows "keeps E R consume_flag"
  unfolding consume_flag_def call_abbrevs
  by (intro keeps_pbind [OF c] keeps_load_flag [OF c] keeps_if keeps_skip [OF c]
      keeps_call [OF c] keeps_store_flag [OF c] assms)

lemma keeps_power_on_modem:
  assumes c: "closed_under R ok" and "ok Feed" "ok (Jot ''Powering on NM3'')"
    "ok (Sleep_ms 10000)" "ok Enable_nm3"
  shows "keeps E R power_on_modem"
  unfolding power_on_modem_def call_abbrevs
  by (intro keeps_block_Cons [OF c] keeps_block_Nil [OF c] keeps_call [OF c] assms)

lemma keeps_broadcast_modules:
  assumes c: "closed_under R ok" and "ok Feed" "\<And>s. ok (Send_broadcast s)" "ok (Sleep_ms 1000)"
  shows "keeps E R (broadcast_modules a ms)"
proof (induction ms)
  case Nil
  show ?case by (simp add: keeps_skip [OF c])
next
  case (Cons m ms)
  obtain name version where m: "m = (name, version)" by (cases m)
  show ?case unfolding m broadcast_modules.simps call_abbrevs
    by (intro keeps_block_Cons [OF c] keeps_block_Nil [OF c] keeps_call [OF c] assms Cons)
qed

text \<open>The whole program, for a relation that every regular step keeps.\<close>

lemma keeps_send_usmart_alive_message:
  assumes c: "closed_under R ok" and reg: "\<And>e. regular e \<Longrightarrow> ok e"
  shows "keeps E R send_usmart_alive_message"
  unfolding send_usmart_alive_message_def call_abbrevs
  by (intro keeps_pbind [OF c] keeps_call [OF c] keeps_get_address [OF c]
      keeps_get_battery_voltage [OF c] reg)
     (simp_all add: regular_def long_delay_def)

lemma keeps_list_modules:
  assumes c: "closed_under R ok" and bm: "\<And>ms. keeps E R (broadcast_modules a ms)"
  shows "keeps E R (list_modules a)"
  using bm closed_refl [OF c]
  by (auto simp add: keeps_def list_modules_def skip_def preturn_def split: option.split)

lemma keeps_write_ota_flag:
  assumes c: "closed_under R ok" and reg: "\<And>e. regular e \<Longrightarrow> ok e"
  shows "keeps E R write_ota_flag"
  unfolding write_ota_flag_def
  by (intro keeps_try_except [OF c] keeps_with_exit [OF c] keeps_block_Cons [OF c]
      keeps_block_Nil [OF c] keeps_call [OF c] reg)
     (simp_all add: regular_def long_delay_def)

lemma keeps_dispatch:
  assumes c: "closed_under R ok" and reg: "\<And>e. regular e \<Longrightarrow> ok e"
    and bm: "\<And>a ms. keeps E R (broadcast_modules a ms)"
  shows "keeps E R (dispatch m)"
  unfolding dispatch_def call_abbrevs
  by (intro keeps_pbind [OF c] keeps_if keeps_block_Cons [OF c] keeps_block_Nil [OF c]
      keeps_skip [OF c] keeps_call [OF c] keeps_machine_reset [OF c]
      keeps_write_ota_flag [OF c] keeps_send_usmart_alive_message [OF c]
      keeps_get_address [OF c] keeps_list_modules [OF c] bm reg)
     (simp_all add: regular_def long_delay_def)

lemma keeps_stamp:
  assumes c: "closed_under R ok" and reg: "\<And>e. regular e \<Longrightarrow> ok e"
  shows "keeps E R (stamp m)"
  unfolding stamp_def
  by (intro keeps_pbind [OF c] keeps_call [OF c] keeps_load_seconds [OF c]
      keeps_load_millis [OF c] keeps_load_micros [OF c] keeps_preturn [OF c] reg)
     (simp_all add: regular_def long_delay_def)

lemma keeps_handle_received:
  assumes c: "closed_under R ok" and reg: "\<And>e. regular e \<Longrightarrow> ok e"
    and bm: "\<And>a ms. keeps E R (broadcast_modules a ms)"
  shows "keeps E R handle_received"
  unfolding handle_received_def call_abbrevs
  by (intro keeps_pbind [OF c] keeps_call [OF c] keeps_get_received_packet [OF c]
      keeps_stamp [OF c] keeps_dispatch [OF c] bm reg)
     (simp_all add: regular_def long_delay_def)

lemma keeps_drain:
  assumes c: "closed_under R ok" and reg: "\<And>e. regular e \<Longrightarrow> ok e"
    and bm: "\<And>a ms. keeps E R (broadcast_modules a ms)"
  shows "keeps E R (drain n)"
proof (induction n)
  case 0
  show ?case by (simp add: keeps_def closed_refl [OF c])
next
  case (Suc n)
  show ?case unfolding drain.simps
    by (intro keeps_pbind [OF c] keeps_if keeps_skip [OF c] keeps_has_received_packet [OF c]
        keeps_handle_received [OF c] bm reg Suc)
       (simp_all add: regular_def long_delay_def)
qed

lemma keeps_loop_body:
  assumes c: "closed_under R ok" and reg: "\<And>e. regular e \<Longrightarrow> ok e"
    and bm: "\<And>a ms. keeps E R (broadcast_modules a ms)"
    and cf: "keeps E R consume_flag"
  shows "keeps E R (loop_body n)"
  unfolding loop_body_def poll_branch_def poll_and_dispatch_def call_abbrevs
  by (intro keeps_pbind [OF c] keeps_if keeps_block_Cons [OF c] keeps_block_Nil [OF c]
      keeps_skip [OF c] keeps_call [OF c] keeps_in_active_window [OF c]
      keeps_process_incoming_buffer [OF c] keeps_drain [OF c]
      keeps_sleep_branch [OF c reg [OF sleep_event_regular]] cf bm reg)
     (simp_all add: regular_def long_delay_def)

lemma keeps_iteration:
  assumes c: "closed_under R ok" and reg: "\<And>e. regular e \<Longrightarrow> ok e"
    and bm: "\<And>a ms. keeps E R (broadcast_modules a ms)"
    and cf: "keeps E R consume_flag"
  shows "keeps E R (iteration n)"
  unfolding iteration_def
  by (intro keeps_try_except [OF c] keeps_loop_body [OF c] keeps_log_exception [OF c] bm cf reg)
     (simp_all add: regular_def long_delay_def)

lemma keeps_mainloop:
  assumes c: "closed_under R ok" and reg: "\<And>e. regular e \<Longrightarrow> ok e"
    and bm: "\<And>a ms. keeps E R (broadcast_modules a ms)"
    and cf: "keeps E R consume_flag"
  shows "keeps E R (mainloop k n)"
proof (induction k)
  case 0
  show ?case by (simp add: keeps_def closed_refl [OF c])
next
  case (Suc k)
  show ?case unfolding mainloop.simps
    by (intro keeps_pbind [OF c] keeps_iteration [OF c] bm cf reg Suc)
qed

lemma keeps_last_reset_cause:
  assumes c: "closed_under R ok" and "\<And>x. ok (Reset_cause_read x)"
  shows "keeps E R last_reset_cause"
  unfolding last_reset_cause_def
  by (intro keeps_pbind [OF c] keeps_if keeps_preturn [OF c] keeps_machine_reset_cause [OF c]
      assms)

lemma keeps_startup:
  assumes c: "closed_under R ok" and reg: "\<And>e. regular e \<Longrightarrow> ok e"
    and pm: "keeps E R power_on_modem"
  shows "keeps E R startup"
  unfolding startup_def log_reset_cause_def prepare_rails_def open_modem_channel_def
    announce_def call_abbrevs
  by (intro keeps_pbind [OF c] keeps_block_Cons [OF c] keeps_block_Nil [OF c]
      keeps_skip [OF c] keeps_call [OF c] keeps_last_reset_cause [OF c]
      keeps_get_address [OF c] keeps_get_battery_voltage [OF c]
      keeps_send_usmart_alive_message [OF c] keeps_utime_time_now [OF c] pm reg)
     (simp_all add: regular_def long_delay_def)

lemma keeps_run_mainloop:
  assumes c: "closed_under R ok" and reg: "\<And>e. regular e \<Longrightarrow> ok e"
    and bm: "\<And>a ms. keeps E R (broadcast_modules a ms)"
    and cf: "keeps E R consume_flag"
    and pm: "keeps E R power_on_modem"
  shows "keeps E R (run_mainloop k n)"
  unfolding run_mainloop_def
  by (intro keeps_pbind [OF c] keeps_startup [OF c] keeps_mainloop [OF c] bm cf pm reg)

lemma next_step_simps [simp]:
  "step (next_step w) = Suc (step w)"
  "trace (next_step w) = trace w"
  "edges (next_step w) = edges w"
  "nm3_callback_flag (next_step w) = nm3_callback_flag w"
  "nm3_callback_seconds (next_step w) = nm3_callback_seconds w"
  "nm3_callback_millis (next_step w) = nm3_callback_millis w"
  "nm3_callback_micros (next_step w) = nm3_callback_micros w"
  "env_variables (next_step w) = env_variables w"
  "received_packets (next_step w) = received_packets w"
  by (simp_all add: next_step_def)

lemma emit_simps [simp]:
  "step (emit e w) = step w"
  "trace (emit e w) = trace w @ [e]"
  "edges (emit e w) = edges w"
  "nm3_callback_flag (emit e w) = nm3_callback_flag w"
  "nm3_callback_seconds (emit e w) = nm3_callback_seconds w"
  "nm3_callback_millis (emit e w) = nm3_callback_millis w"
  "nm3_callback_micros (emit e w) = nm3_callback_micros w"
  "env_variables (emit e w) = env_variables w"
  "received_packets (emit e w) = received_packets w"
  by (simp_all add: emit_def)

lemma quiet_service [simp]: "quiet E \<Longrightarrow> service_irqs E w = w"
  by (simp add: quiet_def service_irqs_def)

lemma call_no_faults [simp]:
  "no_faults E \<Longrightarrow> call e E w = (Normal (), next_step (emit e (service_irqs E w)))"
  by (simp add: call_def no_faults_def)

lemmas run_defs = pbind_def preturn_def skip_def Let_def call_abbrevs
  load_flag_def load_seconds_def load_millis_def load_micros_def store_flag_def
  utime_time_now_def get_address_def get_battery_voltage_def machine_reset_cause_def
  machine_reset_def

lemma still_env_simps [simp]:
  "no_faults (still_env t)" "quiet (still_env t)" "time_at (still_env t) k = t"
  "irqs (still_env t) k = []" "raises (still_env t) k e = None"
  "address_at (still_env t) k = 7" "voltage_at (still_env t) k = ''3.70''"
  "reset_cause_at (still_env t) k = WDT_RESET" "parsed_at (still_env t) k = []"
  by (simp_all add: still_env_def no_faults_def quiet_def)

lemma initial_world_simps [simp]:
  "nm3_callback_flag initial_world = False" "nm3_callback_seconds initial_world = 0"
  "nm3_callback_millis initial_world = 0" "nm3_callback_micros initial_world = 0"
  "env_variables initial_world = None" "received_packets initial_world = []"
  "step initial_world = 0" "edges initial_world = []" "trace initial_world = []"
  by (simp_all add: initial_world_def)

subsection \<open>The dispatcher\<close>

lemma pbind_preturn [simp]: "pbind (preturn x) f = f x"
  by (rule ext, rule ext) (simp add: pbind_def preturn_def)

lemma pbind_skip [simp]: "pbind skip f = f ()"
  by (simp add: skip_def)

lemma pbind_skip_right [simp]: "pbind (p :: unit prog) (\<lambda>_. skip) = p"
proof (rule ext, rule ext)
  fix E w
  show "pbind p (\<lambda>_. skip) E w = p E w"
    by (cases "p E w"; cases "fst (p E w)") (auto simp add: pbind_def skip_def preturn_def)
qed

lemma payload_is_eq: "payload_is m a = (packet_payload m = Some a \<and> a \<noteq> [])"
  by (auto simp add: payload_is_def split: option.splits)

lemma is_network_packet_eq:
  "is_network_packet m = (\<exists>p. packet_payload m = Some p \<and> 2 < length p \<and> take 1 p = ''#'')"
  by (auto simp add: is_network_packet_def split: option.splits)

lemma dispatch_is_first_match: "dispatch m = dispatch_first_match m"
proof (cases "packet_payload m")
  case None
  then show ?thesis
    by (simp add: dispatch_def dispatch_first_match_def payload_is_eq is_network_packet_eq)
next
  case (Some p)
  then show ?thesis
    by (simp add: dispatch_def dispatch_first_match_def payload_is_eq is_network_packet_eq)
qed

lemma categories_at_most_one: "length (filter id (categories m)) \<le> 1"
proof (cases "packet_payload m")
  case None
  then show ?thesis by (simp add: categories_def payload_is_eq is_network_packet_eq)
next
  case (Some p)
  then show ?thesis by (simp add: categories_def payload_is_eq is_network_packet_eq)
qed


lemma call_Some: "raises E (step w) e = Some x \<Longrightarrow>
    call e E w = (Raise x, next_step (service_irqs E w))"
  by (simp add: call_def)


lemmas fmt_defs = format_03d_def zero_pad_def digit_char_def numeral_2_eq_2 numeral_3_eq_3

lemma usmod_without_data:
  assumes "payload_is m ''USMOD''" and "no_faults E" and "no_module_data (env_variables w)"
  shows "fst (dispatch m E w) = Normal () \<and>
         trace (snd (dispatch m E w)) =
           trace w @ [Jot ''MOD message received.'', Get_address (address_at E (Suc (step w)))]"
  using assms
  by (auto simp add: dispatch_is_first_match dispatch_first_match_def payload_is_eq run_defs
      list_modules_def no_module_data_def split: option.splits)

subsection \<open>The two branches of an iteration\<close>

lemma closed_emits: "closed_under (emits ok) ok"
  unfolding closed_under_def emits_def
  by (auto simp add: nm3_callback_def next_step_def emit_def)

lemma emitsD: "keeps E (emits ok) p \<Longrightarrow>
    \<exists>es. trace (snd (p E w)) = trace w @ es \<and> list_all ok es"
  by (simp add: keeps_def emits_def)

lemma pbind_assoc: "pbind (pbind m f) g = pbind m (\<lambda>x. pbind (f x) g)"
proof (rule ext, rule ext)
  fix E w
  show "pbind (pbind m f) g E w = pbind m (\<lambda>x. pbind (f x) g) E w"
    by (cases "m E w"; cases "fst (m E w)") (auto simp add: pbind_def)
qed

lemma pbind_if: "pbind (if c then p else q) f = (if c then pbind p f else pbind q f)"
  by simp

lemma loop_body_eq:
  "loop_body n =
     pbind feed (\<lambda>_. pbind (call (EN_3V3 True)) (\<lambda>_. pbind in_active_window (\<lambda>active.
       if active
       then pbind consume_flag (\<lambda>_. pbind (call Poll_receiver) (\<lambda>_. after_poll n))
       else sleep_branch n)))"
  by (simp add: loop_body_def poll_branch_def poll_and_dispatch_def after_poll_def
      pbind_assoc pbind_if cong: if_cong)


lemma trace_emitted:
  assumes "keeps E (emits ok) p"
  shows "trace (snd (p E w)) = trace w @ emitted p E w" and "list_all ok (emitted p E w)"
  using emitsD [OF assms, of w] by (auto simp add: emitted_def)

lemma try_except_pbind:
  "try_except (pbind m f) h E w =
     (case m E w of
        (Normal x, w1) \<Rightarrow> try_except (f x) h E w1
      | (Raise x, w1) \<Rightarrow> if is_Exception x then h x E w1 else (Raise x, w1)
      | (Reset_device, w1) \<Rightarrow> (Reset_device, w1)
      | (Out_of_fuel, w1) \<Rightarrow> (Out_of_fuel, w1))"
  by (cases "m E w"; cases "fst (m E w)") (auto simp add: try_except_def pbind_def)

lemma keeps_after_poll:
  assumes c: "closed_under R ok" and reg: "\<And>e. regular e \<Longrightarrow> ok e"
    and bm: "\<And>a ms. keeps E R (broadcast_modules a ms)"
  shows "keeps E R (after_poll n)"
  unfolding after_poll_def
  by (intro keeps_pbind [OF c] keeps_process_incoming_buffer [OF c] keeps_drain [OF c]
      keeps_sleep_branch [OF c reg [OF sleep_event_regular]] bm reg)
     (simp_all add: regular_def long_delay_def)

lemma keeps_all_after_poll:
  "keeps E (emits (\<lambda>e. True)) (try_except (after_poll n) log_exception)"
  by (intro keeps_try_except [OF closed_emits] keeps_after_poll [OF closed_emits]
      keeps_log_exception [OF closed_emits] keeps_broadcast_modules [OF closed_emits]) simp_all

lemma keeps_no_poll_sleep:
  "keeps E (emits (\<lambda>e. e \<noteq> Poll_receiver)) (try_except (sleep_branch n) log_exception)"
  by (intro keeps_try_except [OF closed_emits] keeps_sleep_branch [OF closed_emits]
      keeps_log_exception [OF closed_emits]) (auto simp add: sleep_event_def)

lemma no_poll_sleep [simp]:
  "Poll_receiver \<notin> set (emitted (try_except (sleep_branch n) log_exception) E w)"
  using trace_emitted(2) [OF keeps_no_poll_sleep] by (auto simp add: list_all_iff)

lemmas after_poll_trace = trace_emitted(1) [OF keeps_all_after_poll]

lemmas sleep_trace = trace_emitted(1) [OF keeps_no_poll_sleep]

lemma after_call_simps [simp]:
  "step (after_call e E w) = Suc (step w)"
  "trace (after_call e E w) = trace w @ [e]"
  "nm3_callback_flag (after_call e E w) = flag_seen E w"
  "env_variables (after_call e E w) = env_variables w"
  "received_packets (after_call e E w) = received_packets w"
  "edges (after_call e E w) = edges w @ irqs E (step w)"
  by (simp_all add: after_call_def flag_seen_def)

lemma after_store_simps [simp]:
  "step (after_store E w) = Suc (step w)"
  "trace (after_store E w) = trace w @ [Store_flag False]"
  "nm3_callback_flag (after_store E w) = False"
  "env_variables (after_store E w) = env_variables w"
  "received_packets (after_store E w) = received_packets w"
  "edges (after_store E w) = edges w @ irqs E (step w)"
  by (simp_all add: after_store_def)

lemma call_run: "no_faults E \<Longrightarrow> call e E w = (Normal (), after_call e E w)"
  by (simp add: call_def no_faults_def after_call_def)

lemma load_flag_run: "load_flag E w = (Normal (flag_seen E w), after_call (Load_flag (flag_seen E w)) E w)"
  by (simp add: load_flag_def Let_def after_call_def flag_seen_def)

lemma load_seconds_run:
  "load_seconds E w = (Normal (seconds_seen E w), after_call (Load_seconds (seconds_seen E w)) E w)"
  by (simp add: load_seconds_def Let_def after_call_def seconds_seen_def)

lemma store_flag_run: "store_flag False E w = (Normal (), after_store E w)"
  by (simp add: store_flag_def Let_def after_store_def)

lemma utime_time_now_run:
  "no_faults E \<Longrightarrow>
     utime_time_now E w = (Normal (time_at E (step w)), after_call (Time (time_at E (step w))) E w)"
  by (simp add: utime_time_now_def Let_def pbind_def preturn_def after_call_def)


lemma try_except_run:
  "m E w = (Normal x, w1) \<Longrightarrow> try_except (pbind m f) h E w = try_except (f x) h E w1"
  by (simp add: try_except_pbind)

lemma in_active_window_run:
  assumes nf: "no_faults E"
  shows "in_active_window E w =
           (if flag_seen E w then (Normal True, after_call (Load_flag True) E w)
            else (Normal (time_at E (Suc (step w))
                          < seconds_seen E (after_call (Time (time_at E (Suc (step w)))) E
                                               (after_call (Load_flag False) E w)) + 30),
                  after_call (Load_seconds
                      (seconds_seen E (after_call (Time (time_at E (Suc (step w)))) E
                                               (after_call (Load_flag False) E w)))) E
                    (after_call (Time (time_at E (Suc (step w)))) E
                      (after_call (Load_flag False) E w))))"
  by (simp add: in_active_window_def pbind_def load_flag_run load_seconds_run
      utime_time_now_run [OF nf] preturn_def)

lemma consume_then_poll:
  assumes nf: "no_faults E"
  shows "\<exists>w' es. try_except (pbind consume_flag (\<lambda>_. pbind (call Poll_receiver) f)) h E w
                   = try_except (f ()) h E w' \<and>
                 trace w' = trace w @ es @ [Poll_receiver]"
proof (cases "flag_seen E w")
  case True
  let ?w1 = "after_call (Load_flag True) E w"
  let ?w2 = "after_call (Print ''Has received nm3 synch flag.'') E ?w1"
  let ?w3 = "after_call Poll_receiver E (after_store E ?w2)"
  have "try_except (pbind consume_flag (\<lambda>_. pbind (call Poll_receiver) f)) h E w
          = try_except (f ()) h E ?w3"
    using True
    by (simp add: consume_flag_def pbind_assoc try_except_pbind load_flag_run print_def
        call_run [OF nf] store_flag_run)
  moreover have "trace ?w3 = trace w @ [Load_flag True, Print ''Has received nm3 synch flag.'',
      Store_flag False] @ [Poll_receiver]" by simp
  ultimately show ?thesis by blast
next
  case False
  let ?w1 = "after_call (Load_flag False) E w"
  let ?w3 = "after_call Poll_receiver E (after_store E ?w1)"
  have "try_except (pbind consume_flag (\<lambda>_. pbind (call Poll_receiver) f)) h E w
          = try_except (f ()) h E ?w3"
    using False
    by (simp add: consume_flag_def pbind_assoc try_except_pbind load_flag_run
        call_run [OF nf] store_flag_run)
  moreover have "trace ?w3 = trace w @ [Load_flag False, Store_flag False] @ [Poll_receiver]"
    by simp
  ultimately show ?thesis by blast
qed

lemma iteration_run:
  assumes nf: "no_faults E"
  shows "iteration n E w =
           try_except (pbind in_active_window (\<lambda>active.
               if active
               then pbind consume_flag (\<lambda>_. pbind (call Poll_receiver) (\<lambda>_. after_poll n))
               else sleep_branch n)) log_exception E
             (after_call (EN_3V3 True) E (after_call Feed E w))"
proof -
  have 1: "feed E w = (Normal (), after_call Feed E w)"
    unfolding feed_def by (rule call_run [OF nf])
  have 2: "call (EN_3V3 True) E (after_call Feed E w)
             = (Normal (), after_call (EN_3V3 True) E (after_call Feed E w))"
    by (rule call_run [OF nf])
  show ?thesis
    by (simp only: iteration_def loop_body_eq try_except_run [of feed E w, OF 1]
        try_except_run [of "call (EN_3V3 True)" E "after_call Feed E w", OF 2])
qed

lemma seconds_at_test_quiet:
  assumes "\<forall>i<5. irqs E (step w + i) = []"
  shows "seconds_at_test E w = nm3_callback_seconds w"
proof -
  have "irqs E (step w) = []" "irqs E (Suc (step w)) = []" "irqs E (Suc (Suc (step w))) = []"
    "irqs E (Suc (Suc (Suc (step w)))) = []" "irqs E (Suc (Suc (Suc (Suc (step w))))) = []"
    using assms [rule_format, of 0] assms [rule_format, of 1] assms [rule_format, of 2]
      assms [rule_format, of 3] assms [rule_format, of 4]
    by (simp_all add: eval_nat_numeral)
  then show ?thesis
    by (simp add: seconds_at_test_def seconds_seen_def after_call_def service_irqs_def
        eval_nat_numeral)
qed

lemma active_window_decision:
  assumes nf: "no_faults E"
  shows "(Poll_receiver \<in> set (emitted (iteration n) E w)) =
           ((nm3_callback_flag w \<or> irqs E (step w) \<noteq> [] \<or> irqs E (Suc (step w)) \<noteq> [] \<or>
             irqs E (Suc (Suc (step w))) \<noteq> []) \<or>
            time_at E (step w + 3) < seconds_at_test E w + 30) \<and>
         (\<not> (nm3_callback_flag w \<or> irqs E (step w) \<noteq> [] \<or> irqs E (Suc (step w)) \<noteq> [] \<or>
             irqs E (Suc (Suc (step w))) \<noteq> []) \<longrightarrow>
          take 5 (emitted (iteration n) E w) =
            [Feed, EN_3V3 True, Load_flag False, Time (time_at E (step w + 3)),
             Load_seconds (seconds_at_test E w)])"
proof -
  let ?w2 = "after_call (EN_3V3 True) E (after_call Feed E w)"
  let ?t = "time_at E (Suc (step ?w2))"
  let ?w4 = "after_call (Time ?t) E (after_call (Load_flag False) E ?w2)"
  let ?s = "seconds_seen E ?w4"
  let ?w5 = "after_call (Load_seconds ?s) E ?w4"
  let ?poll = "\<lambda>_::unit. pbind (call Poll_receiver) (\<lambda>_. after_poll n)"
  have f: "flag_seen E ?w2 = (nm3_callback_flag w \<or> irqs E (step w) \<noteq> [] \<or>
      irqs E (Suc (step w)) \<noteq> [] \<or> irqs E (Suc (Suc (step w))) \<noteq> [])"
    by (auto simp add: flag_seen_def)
  have t: "?t = time_at E (step w + 3)" by (simp add: eval_nat_numeral)
  have s: "?s = seconds_at_test E w" by (simp add: seconds_at_test_def eval_nat_numeral)
  show ?thesis
  proof (cases "flag_seen E ?w2")
    case True
    have ia: "in_active_window E ?w2 = (Normal True, after_call (Load_flag True) E ?w2)"
      using True by (simp only: in_active_window_run [OF nf] if_True)
    obtain w' es where w': "try_except (pbind consume_flag ?poll) log_exception E
          (after_call (Load_flag True) E ?w2) = try_except (after_poll n) log_exception E w'"
        "trace w' = trace (after_call (Load_flag True) E ?w2) @ es @ [Poll_receiver]"
      using consume_then_poll [OF nf, of "\<lambda>_. after_poll n"] by blast
    have "iteration n E w = try_except (after_poll n) log_exception E w'"
      by (simp only: iteration_run [OF nf] try_except_run [of in_active_window E ?w2, OF ia] if_True w'(1))
    then have "Poll_receiver \<in> set (emitted (iteration n) E w)"
      using w'(2) by (simp add: emitted_def [of "iteration n"] after_poll_trace)
    then show ?thesis using True f by simp
  next
    case False
    have ia: "in_active_window E ?w2 = (Normal (?t < ?s + 30), ?w5)"
      using False by (simp only: in_active_window_run [OF nf] if_False)
    show ?thesis
    proof (cases "?t < ?s + 30")
      case True
      obtain w' es where w': "try_except (pbind consume_flag ?poll) log_exception E ?w5
            = try_except (after_poll n) log_exception E w'"
          "trace w' = trace ?w5 @ es @ [Poll_receiver]"
        using consume_then_poll [OF nf, of "\<lambda>_. after_poll n"] by blast
      have "iteration n E w = try_except (after_poll n) log_exception E w'"
        using True by (simp only: iteration_run [OF nf] try_except_run [of in_active_window E ?w2, OF ia] if_True w'(1))
      then have e: "emitted (iteration n) E w =
          [Feed, EN_3V3 True, Load_flag False, Time ?t, Load_seconds ?s] @ es @ [Poll_receiver]
            @ emitted (try_except (after_poll n) log_exception) E w'"
        using w'(2) by (simp add: emitted_def [of "iteration n"] after_poll_trace)
      show ?thesis using True f t s \<open>\<not> flag_seen E ?w2\<close> by (simp add: e)
    next
      case no: False
      have "iteration n E w = try_except (sleep_branch n) log_exception E ?w5"
        using no by (simp only: iteration_run [OF nf] try_except_run [of in_active_window E ?w2, OF ia] if_False)
      then have e: "emitted (iteration n) E w =
          [Feed, EN_3V3 True, Load_flag False, Time ?t, Load_seconds ?s]
            @ emitted (try_except (sleep_branch n) log_exception) E ?w5"
        by (simp add: emitted_def [of "iteration n"] sleep_trace)
      show ?thesis using no \<open>\<not> flag_seen E ?w2\<close> f t s by (simp add: e)
    qed
  qed
qed














section \<open>The claims\<close>

subsection \<open>C10: the boundary instant\<close>

text \<open>
  Claim C10. The flag is false, no interrupt arrives, nothing raises, and the clock reads
  exactly the last captured second plus 30 at both tests (lines 230 and 323). Then the
  iteration completes and its steps are: the feed, the rail enable, the three reads of the
  first test and the three reads of the second test. It polls nothing and powers nothing
  down.
\<close>

theorem boundary_instant_takes_neither_branch:
  assumes "\<not> nm3_callback_flag w" and "quiet E" and "no_faults E"
    and "time_at E (step w + 3) = nm3_callback_seconds w + 30"
    and "time_at E (step w + 6) = nm3_callback_seconds w + 30"
  shows "fst (iteration n E w) = Normal () \<and>
         trace (snd (iteration n E w)) = trace w @
           [Feed, EN_3V3 True,
            Load_flag False, Time (nm3_callback_seconds w + 30),
            Load_seconds (nm3_callback_seconds w),
            Load_flag False, Time (nm3_callback_seconds w + 30),
            Load_seconds (nm3_callback_seconds w)]"
  using assms
  by (simp add: iteration_def try_except_def loop_body_def poll_branch_def sleep_branch_def
      in_active_window_def too_long_since_synch_def run_defs eval_nat_numeral)

theorem boundary_instant_witness:
  "fst (iteration 1 (still_env 30) initial_world) = Normal () \<and>
   trace (snd (iteration 1 (still_env 30) initial_world)) =
     [Feed, EN_3V3 True, Load_flag False, Time 30, Load_seconds 0,
      Load_flag False, Time 30, Load_seconds 0]"
  using boundary_instant_takes_neither_branch [of initial_world "still_env 30" 1]
  by simp

subsection \<open>C6: the reset marker\<close>

text \<open>
  Claim C6. For a packet whose payload is exactly \<^verbatim>\<open>USMRT\<close>, when the log call before it
  does not raise, the dispatcher's steps are the log entry and one device reset, and the
  run ends there: no flag write, no broadcast, no forwarding. The five independent tests
  of the source behave as the first-match table of the specification for every packet,
  and no packet passes more than one of the five tests.
\<close>

theorem reset_marker_resets_once:
  assumes "payload_is m ''USMRT''"
    and "raises E (step w) (Jot ''Reset message received.'') = None"
  shows "fst (dispatch m E w) = Reset_device \<and>
         trace (snd (dispatch m E w)) = trace w @ [Jot ''Reset message received.'', Machine_reset] \<and>
         dispatch m' = dispatch_first_match m' \<and>
         length (filter id (categories m')) \<le> 1"
  using assms categories_at_most_one [of m']
  by (simp add: dispatch_is_first_match dispatch_first_match_def run_defs call_def)

theorem reset_marker_witness:
  "fst (dispatch (packet_of ''USMRT'') (still_env 0) initial_world) = Reset_device \<and>
   trace (snd (dispatch (packet_of ''USMRT'') (still_env 0) initial_world)) =
     [Jot ''Reset message received.'', Machine_reset] \<and>
   dispatch (packet_of ''#ab'') = dispatch_first_match (packet_of ''#ab'') \<and>
   length (filter id (categories (packet_of ''#ab''))) \<le> 1"
  using reset_marker_resets_once
    [of "packet_of ''USMRT''" "still_env 0" initial_world "packet_of ''#ab''"]
  by (simp add: packet_of_def payload_is_def)

subsection \<open>C5: the OTA marker\<close>



subsection \<open>C7: the list-modules command\<close>

text \<open>
  Claim C7, first half as stated: without module data the command takes no observable
  action. It does not hold: the command is logged and the modem is asked for its address
  before the environment variables are looked at (lines 284 and 288).
\<close>

theorem list_modules_without_data_counterexample:
  "env_variables initial_world = None \<and>
   trace (snd (dispatch (packet_of ''USMOD'') (still_env 0) initial_world)) =
     [Jot ''MOD message received.'', Get_address 7]"
  using usmod_without_data [of "packet_of ''USMOD''" "still_env 0" initial_world]
  by (simp add: packet_of_def payload_is_def no_module_data_def)

text \<open>
  Claim C7, amended. For a packet whose payload is exactly \<^verbatim>\<open>USMOD\<close>, when no call raises:
  without module data the dispatcher's steps are the log entry and the address query, and
  nothing is broadcast; with the modules alpha (version 1.0) and beta (no version) and the
  address 7, the steps after those two are the broadcast of \<^verbatim>\<open>UM007:alpha:1.0\<close>, a pause of
  one second, a feed, the broadcast of \<^verbatim>\<open>UM007:beta:None\<close>, a pause of one second and a
  feed.
\<close>

theorem list_modules_broadcasts:
  assumes "payload_is m ''USMOD''" and "no_faults E"
  shows "(no_module_data (env_variables w) \<longrightarrow>
            fst (dispatch m E w) = Normal () \<and>
            trace (snd (dispatch m E w)) =
              trace w @ [Jot ''MOD message received.'',
                         Get_address (address_at E (Suc (step w)))]) \<and>
         (env_variables w = Some vars \<and>
          map_of vars ''installedModules'' = Some [(''alpha'', Some ''1.0''), (''beta'', None)] \<and>
          address_at E (Suc (step w)) = 7 \<longrightarrow>
            fst (dispatch m E w) = Normal () \<and>
            trace (snd (dispatch m E w)) =
              trace w @ [Jot ''MOD message received.'', Get_address 7,
                         Send_broadcast ''UM007:alpha:1.0'', Sleep_ms 1000, Feed,
                         Send_broadcast ''UM007:beta:None'', Sleep_ms 1000, Feed])"
proof (rule conjI; rule impI)
  assume "no_module_data (env_variables w)"
  then show "fst (dispatch m E w) = Normal () \<and>
      trace (snd (dispatch m E w)) =
        trace w @ [Jot ''MOD message received.'', Get_address (address_at E (Suc (step w)))]"
    using usmod_without_data [OF assms] by simp
next
  assume a: "env_variables w = Some vars \<and>
      map_of vars ''installedModules'' = Some [(''alpha'', Some ''1.0''), (''beta'', None)] \<and>
      address_at E (Suc (step w)) = 7"
  then have "vars \<noteq> []" by auto
  then show "fst (dispatch m E w) = Normal () \<and>
      trace (snd (dispatch m E w)) =
        trace w @ [Jot ''MOD message received.'', Get_address 7,
                   Send_broadcast ''UM007:alpha:1.0'', Sleep_ms 1000, Feed,
                   Send_broadcast ''UM007:beta:None'', Sleep_ms 1000, Feed]"
    using assms a
    by (simp add: dispatch_is_first_match dispatch_first_match_def payload_is_eq run_defs
        list_modules_def fmt_defs)
qed

theorem list_modules_witness:
  "trace (snd (dispatch (packet_of ''USMOD'') (still_env 0) initial_world)) =
     [Jot ''MOD message received.'', Get_address 7] \<and>
   trace (snd (dispatch (packet_of ''USMOD'') (still_env 0)
                 (set_environment_variables two_modules initial_world))) =
     [Jot ''MOD message received.'', Get_address 7,
      Send_broadcast ''UM007:alpha:1.0'', Sleep_ms 1000, Feed,
      Send_broadcast ''UM007:beta:None'', Sleep_ms 1000, Feed]"
  using list_modules_broadcasts [of "packet_of ''USMOD''" "still_env 0" initial_world
      "[(''installedModules'', [(''alpha'', Some ''1.0''), (''beta'', None)])]"]
    list_modules_broadcasts [of "packet_of ''USMOD''" "still_env 0"
      "set_environment_variables two_modules initial_world"
      "[(''installedModules'', [(''alpha'', Some ''1.0''), (''beta'', None)])]"]
  by (simp add: packet_of_def payload_is_def no_module_data_def two_modules_def
      set_environment_variables_def)

subsection \<open>C4: the active window\<close>

text \<open>
  Claim C4. In an iteration whose calls do not raise, the receiver is polled if and only
  if line 230 reads the flag true, or reads it false and then reads a time that is
  strictly less than the captured second it reads, plus 30. The flag it reads is the
  stored flag or one set by an interrupt during the first three steps of the iteration.
  When no interrupt arrives during the five steps up to the test, this is: the flag is
  true or the time is strictly less than the last captured second plus 30. Nothing else
  enters the decision.
\<close>

theorem active_window_decides_polling:
  assumes nf: "no_faults E"
  shows "((Poll_receiver \<in> set (emitted (iteration n) E w)) =
            ((nm3_callback_flag w \<or> irqs E (step w) \<noteq> [] \<or> irqs E (Suc (step w)) \<noteq> [] \<or>
              irqs E (Suc (Suc (step w))) \<noteq> []) \<or>
             (\<exists>s. take 5 (emitted (iteration n) E w) =
                    [Feed, EN_3V3 True, Load_flag False, Time (time_at E (step w + 3)),
                     Load_seconds s] \<and>
                  time_at E (step w + 3) < s + 30))) \<and>
         ((\<forall>i<5. irqs E (step w + i) = []) \<longrightarrow>
            (Poll_receiver \<in> set (emitted (iteration n) E w)) =
              (nm3_callback_flag w \<or> time_at E (step w + 3) < nm3_callback_seconds w + 30))"
proof (rule conjI)
  let ?F = "nm3_callback_flag w \<or> irqs E (step w) \<noteq> [] \<or> irqs E (Suc (step w)) \<noteq> [] \<or>
      irqs E (Suc (Suc (step w))) \<noteq> []"
  note d = active_window_decision [OF nf, of n w]
  show "(Poll_receiver \<in> set (emitted (iteration n) E w)) =
      (?F \<or> (\<exists>s. take 5 (emitted (iteration n) E w) =
                [Feed, EN_3V3 True, Load_flag False, Time (time_at E (step w + 3)),
                 Load_seconds s] \<and>
              time_at E (step w + 3) < s + 30))"
  proof (cases ?F)
    case True
    then show ?thesis using d by blast
  next
    case False
    then have "take 5 (emitted (iteration n) E w) =
        [Feed, EN_3V3 True, Load_flag False, Time (time_at E (step w + 3)),
         Load_seconds (seconds_at_test E w)]"
      using d by blast
    then show ?thesis using d False by auto
  qed
  show "(\<forall>i<5. irqs E (step w + i) = []) \<longrightarrow>
      (Poll_receiver \<in> set (emitted (iteration n) E w)) =
        (nm3_callback_flag w \<or> time_at E (step w + 3) < nm3_callback_seconds w + 30)"
  proof
    assume q: "\<forall>i<5. irqs E (step w + i) = []"
    have "irqs E (step w) = []" "irqs E (Suc (step w)) = []" "irqs E (Suc (Suc (step w))) = []"
      using q [rule_format, of 0] q [rule_format, of 1] q [rule_format, of 2] by simp_all
    then show "(Poll_receiver \<in> set (emitted (iteration n) E w)) =
        (nm3_callback_flag w \<or> time_at E (step w + 3) < nm3_callback_seconds w + 30)"
      using d seconds_at_test_quiet [OF q] by simp
  qed
qed

theorem active_window_witness:
  "Poll_receiver \<in> set (emitted (iteration 1) (still_env 29) initial_world) \<and>
   Poll_receiver \<notin> set (emitted (iteration 1) (still_env 30) initial_world)"
  using active_window_decides_polling [of "still_env 29" 1 initial_world, THEN conjunct2]
    active_window_decides_polling [of "still_env 30" 1 initial_world, THEN conjunct2]
  by simp

subsection \<open>C3: going to sleep\<close>




end
